theory Spec2Isabelle
  imports Main "HOL-Library.AList"
begin

section \<open>Values, paths and envelopes\<close>

text \<open>
  The session layer of jsxapi (\<^verbatim>\<open>src/xapi/index.js\<close>, class \<^verbatim>\<open>XAPI\<close>) and its
  section components (\<^verbatim>\<open>Component\<close>, \<^verbatim>\<open>Config\<close>, \<^verbatim>\<open>Status\<close>, \<^verbatim>\<open>GettableImpl\<close>,
  \<^verbatim>\<open>SettableImpl\<close>), as state-passing functions over a record of the session's fields.

  JavaScript data are JSON-shaped values. Numbers are taken integer-valued; an object is
  the list of its own properties in creation order.
\<close>

datatype jsval =
    JUndefined
  | JNull
  | JBool bool
  | JNum int
  | JStr string
  | JArr "jsval list"
  | JObj "(string \<times> jsval) list"

type_synonym obj = "(string \<times> jsval) list"

text \<open>
  \<^verbatim>\<open>Path = string | Array<string | number>\<close>: the argument of every path-taking
  operation. A normalized path is an array of segments, each a name or a number.
\<close>

datatype segment = Name string | Index nat

datatype path_input = PathString string | PathArray "segment list"

text \<open>
  \<^verbatim>\<open>Number.prototype.toString\<close> on a non-negative integer below \<open>10\<^sup>2\<^sup>1\<close>: its decimal
  digits, most significant first, no leading zero.
\<close>

definition digit :: "nat \<Rightarrow> char" where
  "digit d = ''0123456789'' ! d"

fun toString :: "nat \<Rightarrow> string" where
  "toString n = (if n < 10 then [digit n] else toString (n div 10) @ [digit (n mod 10)])"

declare toString.simps [simp del]

text \<open>The number a decimal id denotes (used to compare ids numerically).\<close>

definition digitValue :: "char \<Rightarrow> nat" where
  "digitValue c = of_char c - 48"

definition idValue :: "string \<Rightarrow> nat" where
  "idValue str = foldl (\<lambda>acc c. 10 * acc + digitValue c) 0 str"



fun segmentValue :: "segment \<Rightarrow> jsval" where
  "segmentValue (Name str) = JStr str"
| "segmentValue (Index n) = JNum (int n)"

definition pathValue :: "segment list \<Rightarrow> jsval" where
  "pathValue p = JArr (map segmentValue p)"


text \<open>
  The outbound envelope. \<^verbatim>\<open>params\<close> is \<open>None\<close> when the caller passed
  \<^verbatim>\<open>undefined\<close>.
\<close>

record request =
  req_id :: string
  req_method :: string
  req_params :: "obj option"

text \<open>
  Modelled from the spec: \<^verbatim>\<open>rpc.createRequest\<close> (module \<^verbatim>\<open>./rpc\<close>) is not among the
  sources. The specification has it build the envelope \<^verbatim>\<open>{ id, method, params }\<close>, with
  no \<^verbatim>\<open>params\<close> member when none were given.
\<close>

definition createRequest :: "string \<Rightarrow> string \<Rightarrow> obj option \<Rightarrow> request" where
  "createRequest rid method params =
     \<lparr>req_id = rid, req_method = method, req_params = params\<rparr>"

text \<open>
  Modelled from the spec: \<^verbatim>\<open>normalizePath\<close> (module \<^verbatim>\<open>./normalizePath\<close>) is not among
  the sources. Its splitting of a string at every delimiter character: the pieces between
  the delimiters, in order (\<open>cur\<close> holds the piece being read, reversed).
\<close>

fun splitOn :: "(char \<Rightarrow> bool) \<Rightarrow> string \<Rightarrow> string \<Rightarrow> string list" where
  "splitOn sep cur [] = [rev cur]"
| "splitOn sep cur (c # cs) =
     (if sep c then rev cur # splitOn sep [] cs else splitOn sep (c # cur) cs)"

text \<open>
  Modelled from the spec: the whitespace \<^verbatim>\<open>normalizePath\<close> splits on (space, tab, line
  feed, carriage return).
\<close>

definition isSpace :: "char \<Rightarrow> bool" where
  "isSpace c = (c = CHR '' '' \<or> c = CHR 0x09 \<or> c = CHR 0x0A \<or> c = CHR 0x0D)"

text \<open>
  Modelled from the spec: \<^verbatim>\<open>normalizePath\<close> (module \<^verbatim>\<open>./normalizePath\<close>) is not among
  the sources. The specification: a sequence is copied unchanged; a string is split on
  \<^verbatim>\<open>/\<close> if any slash is present, else on whitespace; segments are not otherwise
  validated. The functions of the sources that call it take it as the parameter
  \<open>norm\<close>, so that what is proved about them holds for whatever it computes; this
  definition is used only where a concrete path string has to be normalized.
\<close>

definition normalizePath :: "path_input \<Rightarrow> segment list" where
  "normalizePath input =
     (case input of
        PathArray segs \<Rightarrow> segs
      | PathString str \<Rightarrow>
          map Name (if CHR ''/'' \<in> set str
                    then splitOn (\<lambda>c. c = CHR ''/'') [] str
                    else splitOn isSpace [] str))"

text \<open>
  An inbound envelope, as the fields \<^verbatim>\<open>handleResponse\<close> reads. \<open>None\<close> is an absent
  member. \<open>resp_id\<close> is the id as the property key it denotes (the wire format has it a
  string). \<open>resp_result = Some v\<close> is \<^verbatim>\<open>hasOwnProperty(response, 'result')\<close> with value
  \<open>v\<close>.
\<close>

record response =
  resp_id :: "string option"
  resp_method :: "string option"
  resp_params :: "jsval option"
  resp_result :: "jsval option"
  resp_error :: "jsval option"

text \<open>Reading a member: an absent one reads as \<^verbatim>\<open>undefined\<close>.\<close>

definition member :: "jsval option \<Rightarrow> jsval" where
  "member m = (case m of None \<Rightarrow> JUndefined | Some v \<Rightarrow> v)"

definition propertyKey :: "string option \<Rightarrow> string" where
  "propertyKey k = (case k of None \<Rightarrow> ''undefined'' | Some str \<Rightarrow> str)"

section \<open>The session\<close>

text \<open>
  A promise is a cell of the session's heap, referred to by its index. The pair
  \<^verbatim>\<open>{ resolve, reject }\<close> stored for a pending request are the two settling functions of
  one promise, so an entry of \<^verbatim>\<open>requests\<close> is that promise's reference. Settling a
  promise that is already settled has no effect.
\<close>

datatype promise = Pending | Fulfilled jsval | Rejected jsval

definition settle :: "nat \<Rightarrow> promise \<Rightarrow> promise list \<Rightarrow> promise list" where
  "settle p outcome heap =
     (if p < length heap \<and> heap ! p = Pending then heap[p := outcome] else heap)"

text \<open>
  What the facade emits to its own observers: the event name and its arguments, where
  \<open>This\<close> is the session object itself.
\<close>

datatype arg = Value jsval | This

type_synonym emission = "string \<times> arg list"

text \<open>
  The fields of \<^verbatim>\<open>XAPI\<close> that the operations read and write: \<^verbatim>\<open>requestId\<close> and the own
  properties of \<^verbatim>\<open>requests\<close>; the promises created so far; and the calls made to the
  collaborators, in order: \<open>handed\<close> are the envelopes passed to
  \<^verbatim>\<open>backend.execute\<close>, \<open>dispatched\<close> the arguments of \<^verbatim>\<open>feedback.dispatch\<close>,
  \<open>emitted\<close> the calls of \<^verbatim>\<open>this.emit\<close>. The backend, the \<^verbatim>\<open>Feedback\<close> class and the
  event emitter are outside the sources: a call to one of them is recorded and, but for
  \<^verbatim>\<open>backend.execute\<close>, taken to return. The calls of \<^verbatim>\<open>log.debug\<close> are left out.
\<close>

record xapi =
  requestId :: nat
  requests :: "string \<rightharpoonup> nat"
  promises :: "promise list"
  handed :: "request list"
  dispatched :: "jsval list"
  emitted :: "emission list"

text \<open>The constructor: \<^verbatim>\<open>this.requestId = 1; this.requests = {}\<close>.\<close>

definition new_XAPI :: xapi where
  "new_XAPI =
     \<lparr>requestId = 1, requests = Map.empty, promises = [], handed = [],
      dispatched = [], emitted = []\<rparr>"

text \<open>
  \<^verbatim>\<open>this.requestId += 1\<close> on a JavaScript number, which is an IEEE-754 double: the sum
  is exact up to \<^verbatim>\<open>Number.MAX_SAFE_INTEGER\<close> \<open>= 2\<^sup>5\<^sup>3 - 1\<close>; at \<open>2\<^sup>5\<^sup>3\<close> the sum
  \<open>2\<^sup>5\<^sup>3 + 1\<close> is not representable and rounds (ties to even) back to \<open>2\<^sup>5\<^sup>3\<close>. The
  counter starts at 1 and only this statement writes it, so it never exceeds \<open>2\<^sup>5\<^sup>3\<close>.
\<close>

definition MAX_SAFE_INTEGER :: nat where
  "MAX_SAFE_INTEGER = 2 ^ 53 - 1"

definition plusOne :: "nat \<Rightarrow> nat" where
  "plusOne n = (if n \<le> MAX_SAFE_INTEGER then n + 1 else n)"

definition nextRequestId :: "xapi \<Rightarrow> string \<times> xapi" where
  "nextRequestId s =
     (let rid = requestId s;
          s' = s\<lparr>requestId := plusOne (requestId s)\<rparr>
      in (toString rid, s'))"

text \<open>
  The transport's \<^verbatim>\<open>execute\<close>, as far as the session sees it: it returns (\<open>None\<close>) or
  throws a value synchronously (\<open>Some e\<close>).
\<close>

type_synonym backend = "request \<Rightarrow> jsval option"

text \<open>
  \<^verbatim>\<open>execute(method, params)\<close>. The promise's executor runs at once: it allocates the id,
  builds the envelope, hands it to the backend and then stores the entry. A throw inside
  the executor rejects the promise and skips the rest of it. The result is the reference
  of the promise returned.
\<close>

definition execute :: "backend \<Rightarrow> string \<Rightarrow> obj option \<Rightarrow> xapi \<Rightarrow> nat \<times> xapi" where
  "execute be method params s =
     (let p = length (promises s);
          s0 = s\<lparr>promises := promises s @ [Pending]\<rparr>;
          (rid, s1) = nextRequestId s0;
          request = createRequest rid method params;
          s2 = s1\<lparr>handed := handed s1 @ [request]\<rparr>
      in case be request of
           Some thrown \<Rightarrow> (p, s2\<lparr>promises := settle p (Rejected thrown) (promises s2)\<rparr>)
         | None \<Rightarrow> (p, s2\<lparr>requests := (requests s2)(rid \<mapsto> p)\<rparr>))"

text \<open>
  A run of \<^verbatim>\<open>execute\<close> calls on one session with nothing arriving in between: each call
  comes with the behaviour of the backend at that call. The result lists the promises
  returned, in order.
\<close>

type_synonym call = "backend \<times> string \<times> obj option"

fun executeAll :: "call list \<Rightarrow> xapi \<Rightarrow> nat list \<times> xapi" where
  "executeAll [] s = ([], s)"
| "executeAll ((be, method, params) # calls) s =
     (let (p, s1) = execute be method params s;
          (ps, s2) = executeAll calls s1
      in (p # ps, s2))"

text \<open>A call whose envelope, carrying the id \<open>rid\<close>, the backend takes without throwing.\<close>

definition accepts :: "call \<Rightarrow> string \<Rightarrow> bool" where
  "accepts c rid = (case c of (be, method, params) \<Rightarrow> be (createRequest rid method params) = None)"

text \<open>Two backends: one that takes every envelope, one that always throws \<open>e\<close>.\<close>

definition accepting :: backend where
  "accepting request = None"

definition throwing :: "jsval \<Rightarrow> backend" where
  "throwing e request = Some e"



text \<open>
  \<^verbatim>\<open>handleResponse(response)\<close>. It returns or throws; the first component is the
  exception thrown, if any, and the second the session as the call leaves it.

  \<^verbatim>\<open>const { resolve } = this.requests[id]\<close> followed by \<^verbatim>\<open>resolve(...)\<close> throws a
  \<^verbatim>\<open>TypeError\<close> when \<^verbatim>\<open>requests\<close> has no own property \<^verbatim>\<open>id\<close>: the lookup then yields
  \<^verbatim>\<open>undefined\<close>, which cannot be destructured, or a member inherited from
  \<^verbatim>\<open>Object.prototype\<close>, none of which has a \<^verbatim>\<open>resolve\<close> or \<^verbatim>\<open>reject\<close> to call.
  The same holds for \<^verbatim>\<open>reject\<close>.
\<close>

datatype error = TypeError

definition handleResponse :: "response \<Rightarrow> xapi \<Rightarrow> error option \<times> xapi" where
  "handleResponse response s =
     (let rid = propertyKey (resp_id response) in
      if resp_method response = Some ''xFeedback/Event''
      then (None, s\<lparr>dispatched := dispatched s @ [member (resp_params response)]\<rparr>)
      else
        (case
           (case resp_result response of
              Some result \<Rightarrow>
                (case requests s rid of
                   None \<Rightarrow> Inl TypeError
                 | Some resolve \<Rightarrow>
                     Inr (s\<lparr>promises := settle resolve (Fulfilled result) (promises s)\<rparr>))
            | None \<Rightarrow>
                (case requests s rid of
                   None \<Rightarrow> Inl TypeError
                 | Some reject \<Rightarrow>
                     Inr (s\<lparr>promises :=
                            settle reject (Rejected (member (resp_error response)))
                              (promises s)\<rparr>)))
         of
           Inl thrown \<Rightarrow> (Some thrown, s)
         | Inr s1 \<Rightarrow> (None, s1\<lparr>requests := (requests s1)(rid := None)\<rparr>)))"

text \<open>
  The four listeners the constructor installs on the backend:
  \<^verbatim>\<open>close\<close>, \<^verbatim>\<open>error\<close>, \<^verbatim>\<open>ready\<close> and \<^verbatim>\<open>data\<close>.
\<close>

datatype signal = Close | Error jsval | Ready | Data response

definition emit :: "string \<Rightarrow> arg list \<Rightarrow> xapi \<Rightarrow> xapi" where
  "emit name args s = s\<lparr>emitted := emitted s @ [(name, args)]\<rparr>"

definition backend_on :: "signal \<Rightarrow> xapi \<Rightarrow> error option \<times> xapi" where
  "backend_on sig s =
     (case sig of
        Close \<Rightarrow> (None, emit ''close'' [] s)
      | Error err \<Rightarrow> (None, emit ''error'' [Value err] s)
      | Ready \<Rightarrow> (None, emit ''ready'' [This] s)
      | Data response \<Rightarrow> handleResponse response s)"

text \<open>
  The sessions that can arise: a fresh one, and what a call of \<^verbatim>\<open>execute\<close> (so also of
  \<^verbatim>\<open>command\<close>, \<^verbatim>\<open>get\<close> and \<^verbatim>\<open>set\<close>) or a signal of the backend makes of one.
\<close>

inductive reachable :: "xapi \<Rightarrow> bool" where
  fresh: "reachable new_XAPI"
| executed: "reachable s \<Longrightarrow> reachable (snd (execute be method params s))"
| signalled: "reachable s \<Longrightarrow> reachable (snd (backend_on sig s))"

text \<open>
  What happens to a session after a request was made, one event after the other: a further
  call of \<^verbatim>\<open>execute\<close>, with the behaviour of the backend at that call, or a signal of
  the backend.
\<close>

datatype event = Call backend string "obj option" | Signal signal

fun step :: "event \<Rightarrow> xapi \<Rightarrow> xapi" where
  "step (Call be method params) s = snd (execute be method params s)"
| "step (Signal sig) s = snd (backend_on sig s)"

fun run :: "event list \<Rightarrow> xapi \<Rightarrow> xapi" where
  "run [] s = s"
| "run (e # es) s = run es (step e s)"

text \<open>No response carrying the id \<open>k\<close> is among the events.\<close>

fun unanswered :: "string \<Rightarrow> event list \<Rightarrow> bool" where
  "unanswered k [] = True"
| "unanswered k (Call be method params # es) = unanswered k es"
| "unanswered k (Signal sig # es) =
     ((case sig of
         Data response \<Rightarrow>
           resp_method response = Some ''xFeedback/Event'' \<or> propertyKey (resp_id response) \<noteq> k
       | _ \<Rightarrow> True)
      \<and> unanswered k es)"

text \<open>
  One of the calls among the events, made on the session \<open>s\<close>, is allocated the id \<open>k\<close>
  once more and stores its own entry under it.
\<close>

fun replaced :: "string \<Rightarrow> event list \<Rightarrow> xapi \<Rightarrow> bool" where
  "replaced k [] s = False"
| "replaced k (Call be method params # es) s =
     ((toString (requestId s) = k \<and> be (createRequest k method params) = None)
      \<or> replaced k es (snd (execute be method params s)))"
| "replaced k (Signal sig # es) s = replaced k es (snd (backend_on sig s))"

text \<open>
  A session whose counter has reached \<open>2\<^sup>5\<^sup>3\<close>: a fresh one after \<open>2\<^sup>5\<^sup>3 - 1\<close> calls whose
  transport threw.
\<close>

definition saturated :: xapi where
  "saturated =
     snd (executeAll (replicate 9007199254740991 (throwing JNull, ''xGet'', None)) new_XAPI)"

text \<open>
  What every session that can arise satisfies: each entry of \<^verbatim>\<open>requests\<close> refers to a
  promise that exists and is pending, and no two entries refer to the same promise.
\<close>

definition entries_ok :: "(string \<rightharpoonup> nat) \<Rightarrow> promise list \<Rightarrow> bool" where
  "entries_ok reqs heap =
     ((\<forall>k p. reqs k = Some p \<longrightarrow> p < length heap \<and> heap ! p = Pending)
      \<and> (\<forall>k k' p. reqs k = Some p \<longrightarrow> reqs k' = Some p \<longrightarrow> k = k'))"

section \<open>Section components\<close>

text \<open>
  \<^verbatim>\<open>Component.normalizePath\<close>; \<^verbatim>\<open>!prefix\<close> on a string holds exactly for the empty
  string, and \<^verbatim>\<open>[prefix].concat(normalized)\<close> is a new array.
\<close>

definition Component_normalizePath ::
  "(path_input \<Rightarrow> segment list) \<Rightarrow> string \<Rightarrow> path_input \<Rightarrow> segment list" where
  "Component_normalizePath norm prefix path =
     (let normalized = norm path
      in if prefix = [] then normalized else [Name prefix] @ normalized)"

text \<open>
  \<^verbatim>\<open>GettableImpl.get\<close> and \<^verbatim>\<open>SettableImpl.set\<close>; \<open>normalizer\<close> is the \<^verbatim>\<open>normalizePath\<close> given
  to the constructor.
\<close>

definition GettableImpl_get ::
  "(path_input \<Rightarrow> segment list) \<Rightarrow> backend \<Rightarrow> path_input \<Rightarrow> xapi \<Rightarrow> nat \<times> xapi" where
  "GettableImpl_get normalizer be path s =
     execute be ''xGet'' (Some [(''Path'', pathValue (normalizer path))]) s"

definition SettableImpl_set ::
  "(path_input \<Rightarrow> segment list) \<Rightarrow> backend \<Rightarrow> path_input \<Rightarrow> jsval \<Rightarrow> xapi \<Rightarrow> nat \<times> xapi" where
  "SettableImpl_set normalizer be path val s =
     execute be ''xSet''
       (Some [(''Path'', pathValue (normalizer path)), (''Value'', val)]) s"

text \<open>
  \<^verbatim>\<open>Config\<close> (prefix \<^verbatim>\<open>'Configuration'\<close>) and \<^verbatim>\<open>Status\<close> (prefix \<^verbatim>\<open>'Status'\<close>) pass
  their own \<^verbatim>\<open>normalizePath\<close> to the implementations.
\<close>

definition Config_get ::
  "(path_input \<Rightarrow> segment list) \<Rightarrow> backend \<Rightarrow> path_input \<Rightarrow> xapi \<Rightarrow> nat \<times> xapi" where
  "Config_get norm = GettableImpl_get (Component_normalizePath norm ''Configuration'')"

definition Config_set ::
  "(path_input \<Rightarrow> segment list) \<Rightarrow> backend \<Rightarrow> path_input \<Rightarrow> jsval \<Rightarrow> xapi \<Rightarrow> nat \<times> xapi" where
  "Config_set norm = SettableImpl_set (Component_normalizePath norm ''Configuration'')"

definition Status_get ::
  "(path_input \<Rightarrow> segment list) \<Rightarrow> backend \<Rightarrow> path_input \<Rightarrow> xapi \<Rightarrow> nat \<times> xapi" where
  "Status_get norm = GettableImpl_get (Component_normalizePath norm ''Status'')"

section \<open>Facts about the operations\<close>

text \<open>What one \<^verbatim>\<open>execute\<close> does to the session, by the backend's behaviour.\<close>

lemma execute_fst: "fst (execute be m ps s) = length (promises s)"
  by (simp add: execute_def nextRequestId_def Let_def split: option.splits)

lemma execute_requestId: "requestId (snd (execute be m ps s)) = plusOne (requestId s)"
  by (simp add: execute_def nextRequestId_def Let_def split: option.splits)

lemma execute_handed:
  "handed (snd (execute be m ps s)) = handed s @ [createRequest (toString (requestId s)) m ps]"
  by (simp add: execute_def nextRequestId_def Let_def split: option.splits)

lemma execute_accepted:
  "be (createRequest (toString (requestId s)) m ps) = None \<Longrightarrow>
   execute be m ps s =
     (length (promises s),
      s\<lparr>requestId := plusOne (requestId s),
        requests := (requests s)(toString (requestId s) \<mapsto> length (promises s)),
        promises := promises s @ [Pending],
        handed := handed s @ [createRequest (toString (requestId s)) m ps]\<rparr>)"
  by (simp add: execute_def nextRequestId_def Let_def)

lemma execute_thrown:
  "be (createRequest (toString (requestId s)) m ps) = Some e \<Longrightarrow>
   execute be m ps s =
     (length (promises s),
      s\<lparr>requestId := plusOne (requestId s),
        promises := promises s @ [Rejected e],
        handed := handed s @ [createRequest (toString (requestId s)) m ps]\<rparr>)"
  by (simp add: execute_def nextRequestId_def Let_def settle_def)

lemma handleResponse_feedback:
  "resp_method r = Some ''xFeedback/Event'' \<Longrightarrow>
   handleResponse r s = (None, s\<lparr>dispatched := dispatched s @ [member (resp_params r)]\<rparr>)"
  by (simp add: handleResponse_def)

lemma handleResponse_unknown:
  "resp_method r \<noteq> Some ''xFeedback/Event'' \<Longrightarrow> requests s (propertyKey (resp_id r)) = None \<Longrightarrow>
   handleResponse r s = (Some TypeError, s)"
  by (simp add: handleResponse_def Let_def split: option.splits)

lemma handleResponse_known:
  "resp_method r \<noteq> Some ''xFeedback/Event'' \<Longrightarrow> requests s (propertyKey (resp_id r)) = Some p \<Longrightarrow>
   handleResponse r s =
     (None, s\<lparr>promises := settle p
                 (case resp_result r of Some v \<Rightarrow> Fulfilled v
                  | None \<Rightarrow> Rejected (member (resp_error r))) (promises s),
               requests := (requests s)(propertyKey (resp_id r) := None)\<rparr>)"
  by (simp add: handleResponse_def Let_def split: option.splits)

lemma digitValue_digit: "d < 10 \<Longrightarrow> digitValue (digit d) = d"
proof -
  assume "d < 10"
  then have "d \<in> {0,1,2,3,4,5,6,7,8,9}" by auto
  then show ?thesis by (auto simp: digitValue_def digit_def)
qed

lemma idValue_snoc: "idValue (cs @ [c]) = 10 * idValue cs + digitValue c"
  by (simp add: idValue_def)

lemma idValue_toString: "idValue (toString n) = n"
proof (induction n rule: toString.induct)
  case (1 n)
  show ?case
  proof (cases "n < 10")
    case True
    then show ?thesis by (simp add: toString.simps idValue_def digitValue_digit)
  next
    case False
    have "idValue (toString n) = 10 * idValue (toString (n div 10)) + digitValue (digit (n mod 10))"
      using False by (subst toString.simps) (simp add: idValue_snoc)
    also have "\<dots> = 10 * (n div 10) + n mod 10"
      using "1.IH" False by (simp add: digitValue_digit)
    finally show ?thesis by simp
  qed
qed

lemma toString_inj: "toString a = toString b \<Longrightarrow> a = b"
  by (metis idValue_toString)

lemma plusOne_min: "c \<le> 2 ^ 53 \<Longrightarrow> plusOne c = min (c + 1) (2 ^ 53)"
  by (simp add: plusOne_def MAX_SAFE_INTEGER_def)

lemma executeAll_requestId:
  "requestId s \<le> 2 ^ 53 \<Longrightarrow>
   requestId (snd (executeAll calls s)) = min (requestId s + length calls) (2 ^ 53)"
proof (induction calls arbitrary: s)
  case Nil
  then show ?case by simp
next
  case (Cons c calls)
  obtain be m ps where c: "c = (be, m, ps)" by (cases c)
  let ?s1 = "snd (execute be m ps s)"
  have r1: "requestId ?s1 = min (requestId s + 1) (2 ^ 53)"
    using Cons.prems by (simp add: execute_requestId plusOne_min)
  then have "requestId ?s1 \<le> 2 ^ 53" by simp
  from Cons.IH [OF this] r1 show ?case
    by (simp add: c split_beta Let_def)
qed

lemma executeAll_ids:
  "requestId s \<le> 2 ^ 53 \<Longrightarrow>
   map req_id (handed (snd (executeAll calls s))) =
     map req_id (handed s) @
     map (\<lambda>k. toString (min (requestId s + k) (2 ^ 53))) [0..<length calls]"
proof (induction calls arbitrary: s)
  case Nil
  then show ?case by simp
next
  case (Cons c calls)
  obtain be m ps where c: "c = (be, m, ps)" by (cases c)
  let ?s1 = "snd (execute be m ps s)"
  have r1: "requestId ?s1 = min (requestId s + 1) (2 ^ 53)"
    using Cons.prems by (simp add: execute_requestId plusOne_min)
  then have le: "requestId ?s1 \<le> 2 ^ 53" by simp
  have h1: "map req_id (handed ?s1) = map req_id (handed s) @ [toString (requestId s)]"
    by (simp add: execute_handed createRequest_def)
  have shift: "map (\<lambda>k. toString (min (requestId ?s1 + k) (2 ^ 53))) [0..<length calls]
      = map (\<lambda>k. toString (min (requestId s + k) (2 ^ 53))) (map Suc [0..<length calls])"
    unfolding r1 by (simp add: min_def)
  have first: "toString (requestId s) = toString (min (requestId s + 0) (2 ^ 53))"
    using Cons.prems by (simp add: min_def)
  have "map req_id (handed (snd (executeAll (c # calls) s)))
      = map req_id (handed (snd (executeAll calls ?s1)))"
    by (simp add: c split_beta Let_def)
  also have "\<dots> = map req_id (handed ?s1) @
      map (\<lambda>k. toString (min (requestId ?s1 + k) (2 ^ 53))) [0..<length calls]"
    by (rule Cons.IH [OF le])
  also have "\<dots> = map req_id (handed s) @
      map (\<lambda>k. toString (min (requestId s + k) (2 ^ 53))) (0 # map Suc [0..<length calls])"
    unfolding h1 shift using first by simp
  also have "0 # map Suc [0..<length calls] = [0..<length (c # calls)]"
    by (metis length_Cons map_Suc_upt upt_conv_Cons zero_less_Suc)
  finally show ?case .
qed

lemma executeAll_promises:
  "length (promises (snd (executeAll calls s))) = length (promises s) + length calls
   \<and> fst (executeAll calls s) = [length (promises s)..<length (promises s) + length calls]
   \<and> (\<forall>q<length (promises s). promises (snd (executeAll calls s)) ! q = promises s ! q)"
proof (induction calls arbitrary: s)
  case Nil
  then show ?case by simp
next
  case (Cons c calls)
  obtain be m ps where c: "c = (be, m, ps)" by (cases c)
  let ?s1 = "snd (execute be m ps s)"
  have len1: "length (promises ?s1) = Suc (length (promises s))"
    by (cases "be (createRequest (toString (requestId s)) m ps)")
       (simp_all add: execute_accepted execute_thrown)
  have old1: "\<forall>q<length (promises s). promises ?s1 ! q = promises s ! q"
    by (cases "be (createRequest (toString (requestId s)) m ps)")
       (simp_all add: execute_accepted execute_thrown nth_append)
  have unf: "executeAll (c # calls) s =
      (fst (execute be m ps s) # fst (executeAll calls ?s1), snd (executeAll calls ?s1))"
    by (simp add: c split_beta Let_def)
  from Cons.IH [of ?s1] len1 old1 show ?case
    unfolding unf by (simp add: execute_fst upt_conv_Cons del: upt_Suc)
qed

lemma executeAll_requests_other:
  "requestId s \<le> 2 ^ 53 \<Longrightarrow>
   \<forall>k<length calls. key \<noteq> toString (min (requestId s + k) (2 ^ 53)) \<Longrightarrow>
   requests (snd (executeAll calls s)) key = requests s key"
proof (induction calls arbitrary: s)
  case Nil
  then show ?case by simp
next
  case (Cons c calls)
  obtain be m ps where c: "c = (be, m, ps)" by (cases c)
  let ?s1 = "snd (execute be m ps s)"
  have r1: "requestId ?s1 = min (requestId s + 1) (2 ^ 53)"
    using Cons.prems(1) by (simp add: execute_requestId plusOne_min)
  then have le: "requestId ?s1 \<le> 2 ^ 53" by simp
  have k0: "key \<noteq> toString (requestId s)"
    using Cons.prems(2) [rule_format, of 0] Cons.prems(1) by (simp add: min_def)
  have rest: "\<forall>k<length calls. key \<noteq> toString (min (requestId ?s1 + k) (2 ^ 53))"
  proof (intro allI impI)
    fix k assume "k < length calls"
    then have "key \<noteq> toString (min (requestId s + Suc k) (2 ^ 53))"
      using Cons.prems(2) [rule_format, of "Suc k"] by simp
    moreover have "min (requestId ?s1 + k) (2 ^ 53) = min (requestId s + Suc k) (2 ^ 53)"
      unfolding r1 by (simp add: min_def)
    ultimately show "key \<noteq> toString (min (requestId ?s1 + k) (2 ^ 53))" by simp
  qed
  have step: "requests ?s1 key = requests s key"
    using k0 by (cases "be (createRequest (toString (requestId s)) m ps)")
       (simp_all add: execute_accepted execute_thrown)
  have "requests (snd (executeAll (c # calls) s)) key = requests (snd (executeAll calls ?s1)) key"
    by (simp add: c split_beta Let_def)
  also have "\<dots> = requests ?s1 key" by (rule Cons.IH [OF le rest])
  finally show ?case using step by simp
qed

lemma executeAll_pending:
  "requestId s + length calls \<le> 2 ^ 53 + 1 \<Longrightarrow> i < length calls \<Longrightarrow>
   accepts (calls ! i) (toString (requestId s + i)) \<Longrightarrow>
   requests (snd (executeAll calls s)) (toString (requestId s + i)) = Some (length (promises s) + i)
   \<and> promises (snd (executeAll calls s)) ! (length (promises s) + i) = Pending"
proof (induction calls arbitrary: s i)
  case Nil
  then show ?case by simp
next
  case (Cons c calls)
  obtain be m ps where c: "c = (be, m, ps)" by (cases c)
  let ?s1 = "snd (execute be m ps s)"
  have cle: "requestId s \<le> 2 ^ 53" using Cons.prems(1) by simp
  have r1: "calls \<noteq> [] \<Longrightarrow> requestId ?s1 = requestId s + 1"
  proof -
    assume "calls \<noteq> []"
    then have "requestId s + 1 \<le> 2 ^ 53" using Cons.prems(1) by (cases calls) auto
    then show ?thesis by (simp add: execute_requestId plusOne_min [OF cle])
  qed
  have le1: "requestId ?s1 \<le> 2 ^ 53"
    using cle by (simp add: execute_requestId plusOne_min)
  have len1: "length (promises ?s1) = Suc (length (promises s))"
    by (cases "be (createRequest (toString (requestId s)) m ps)")
       (simp_all add: execute_accepted execute_thrown)
  have unf: "snd (executeAll (c # calls) s) = snd (executeAll calls ?s1)"
    by (simp add: c split_beta Let_def)
  show ?case
  proof (cases i)
    case 0
    then have acc: "be (createRequest (toString (requestId s)) m ps) = None"
      using Cons.prems(3) by (simp add: c accepts_def)
    have e1: "requests ?s1 (toString (requestId s)) = Some (length (promises s))"
      and p1: "promises ?s1 ! length (promises s) = Pending"
      using acc by (simp_all add: execute_accepted)
    have other: "\<forall>k<length calls. toString (requestId s) \<noteq> toString (min (requestId ?s1 + k) (2 ^ 53))"
    proof (intro allI impI)
      fix k assume k: "k < length calls"
      then have "calls \<noteq> []" by auto
      then have "min (requestId ?s1 + k) (2 ^ 53) = requestId s + 1 + k"
        using Cons.prems(1) r1 k by simp
      then show "toString (requestId s) \<noteq> toString (min (requestId ?s1 + k) (2 ^ 53))"
        using toString_inj [of "requestId s" "requestId s + 1 + k"] by auto
    qed
    have "requests (snd (executeAll calls ?s1)) (toString (requestId s)) = requests ?s1 (toString (requestId s))"
      by (rule executeAll_requests_other [OF le1 other])
    moreover have "promises (snd (executeAll calls ?s1)) ! length (promises s) = promises ?s1 ! length (promises s)"
      using executeAll_promises [of calls ?s1] len1 by simp
    ultimately show ?thesis using 0 e1 p1 unf by simp
  next
    case (Suc j)
    then have "calls \<noteq> []" using Cons.prems(2) by auto
    note r1 = r1 [OF this]
    have b: "requestId ?s1 + length calls \<le> 2 ^ 53 + 1" using Cons.prems(1) r1 by simp
    have j: "j < length calls" using Cons.prems(2) Suc by simp
    have a: "accepts (calls ! j) (toString (requestId ?s1 + j))"
      using Cons.prems(3) Suc r1 by simp
    from Cons.IH [OF b j a] show ?thesis
      unfolding unf using Suc r1 len1 by simp
  qed
qed

lemma settle_pending:
  "p < length heap \<Longrightarrow> heap ! p = Pending \<Longrightarrow> settle p outcome heap = heap[p := outcome]"
  by (simp add: settle_def)




lemma entries_ok_empty: "entries_ok Map.empty heap"
  by (simp add: entries_ok_def)

lemma entries_ok_store:
  assumes "entries_ok reqs heap"
  shows "entries_ok (reqs(k0 \<mapsto> length heap)) (heap @ [Pending])"
proof -
  have old: "q < length heap \<and> heap ! q = Pending" if "reqs x = Some q" for x q
    using assms that unfolding entries_ok_def by blast
  have inj: "x = y" if "reqs x = Some q" "reqs y = Some q" for x y q
    using assms that unfolding entries_ok_def by blast
  have new: "(if k = k0 then p = length heap else reqs k = Some p)"
    if "(reqs(k0 \<mapsto> length heap)) k = Some p" for k p
    using that by (cases "k = k0") auto
  show ?thesis
    unfolding entries_ok_def
  proof (intro conjI allI impI)
    fix k p assume a: "(reqs(k0 \<mapsto> length heap)) k = Some p"
    show "p < length (heap @ [Pending])"
    proof (cases "k = k0")
      case True
      with new [OF a] show ?thesis by simp
    next
      case False
      with new [OF a] old [of k p] show ?thesis by simp
    qed
    show "(heap @ [Pending]) ! p = Pending"
    proof (cases "k = k0")
      case True
      with new [OF a] show ?thesis by simp
    next
      case False
      with new [OF a] old [of k p] show ?thesis by (simp add: nth_append)
    qed
  next
    fix k k' p
    assume a: "(reqs(k0 \<mapsto> length heap)) k = Some p"
      and b: "(reqs(k0 \<mapsto> length heap)) k' = Some p"
    show "k = k'"
    proof (cases "k = k0")
      case True
      then have p: "p = length heap" using new [OF a] by simp
      show ?thesis
      proof (cases "k' = k0")
        case True
        with \<open>k = k0\<close> show ?thesis by simp
      next
        case False
        then have "reqs k' = Some p" using new [OF b] by simp
        then have "p < length heap" using old by blast
        with p show ?thesis by simp
      qed
    next
      case False
      then have rk: "reqs k = Some p" using new [OF a] by simp
      show ?thesis
      proof (cases "k' = k0")
        case True
        then have "p = length heap" using new [OF b] by simp
        moreover have "p < length heap" using old rk by blast
        ultimately show ?thesis by simp
      next
        case False
        then have "reqs k' = Some p" using new [OF b] by simp
        with rk show ?thesis by (rule inj)
      qed
    qed
  qed
qed

lemma entries_ok_append:
  assumes "entries_ok reqs heap"
  shows "entries_ok reqs (heap @ [x])"
proof -
  have old: "q < length heap \<and> heap ! q = Pending" if "reqs y = Some q" for y q
    using assms that unfolding entries_ok_def by blast
  have inj: "y = z" if "reqs y = Some q" "reqs z = Some q" for y z q
    using assms that unfolding entries_ok_def by blast
  show ?thesis
    unfolding entries_ok_def
  proof (intro conjI allI impI)
    fix k p assume "reqs k = Some p"
    then show "p < length (heap @ [x])" and "(heap @ [x]) ! p = Pending"
      using old [of k p] by (simp_all add: nth_append)
  next
    fix k k' p assume "reqs k = Some p" and "reqs k' = Some p"
    then show "k = k'" by (rule inj)
  qed
qed

lemma entries_ok_settle:
  assumes "entries_ok reqs heap" and "reqs k0 = Some p0"
  shows "entries_ok (reqs(k0 := None)) (heap[p0 := x])"
proof -
  have old: "q < length heap \<and> heap ! q = Pending" if "reqs y = Some q" for y q
    using assms(1) that unfolding entries_ok_def by blast
  have inj: "y = z" if "reqs y = Some q" "reqs z = Some q" for y z q
    using assms(1) that unfolding entries_ok_def by blast
  have rest: "k \<noteq> k0 \<and> reqs k = Some p" if "(reqs(k0 := None)) k = Some p" for k p
    using that by (cases "k = k0") auto
  show ?thesis
    unfolding entries_ok_def
  proof (intro conjI allI impI)
    fix k p assume a: "(reqs(k0 := None)) k = Some p"
    have "p \<noteq> p0"
    proof
      assume "p = p0"
      then have "k = k0" using rest [OF a] assms(2) inj [of k p0 k0] by simp
      with rest [OF a] show False by simp
    qed
    then show "p < length (heap[p0 := x])" and "heap[p0 := x] ! p = Pending"
      using old [of k p] rest [OF a] by simp_all
  next
    fix k k' p
    assume "(reqs(k0 := None)) k = Some p" and "(reqs(k0 := None)) k' = Some p"
    then have "reqs k = Some p" and "reqs k' = Some p" using rest by blast+
    then show "k = k'" by (rule inj)
  qed
qed


lemma reachable_entries: "reachable s \<Longrightarrow> entries_ok (requests s) (promises s)"
proof (induction rule: reachable.induct)
  case fresh
  show ?case by (simp add: new_XAPI_def entries_ok_empty)
next
  case (executed s be m ps)
  show ?case
  proof (cases "be (createRequest (toString (requestId s)) m ps)")
    case None
    have "requests (snd (execute be m ps s))
        = (requests s)(toString (requestId s) \<mapsto> length (promises s))"
      and "promises (snd (execute be m ps s)) = promises s @ [Pending]"
      by (simp_all add: execute_accepted [of be s m ps, OF None])
    then show ?thesis
      using entries_ok_store [OF executed.IH, of "toString (requestId s)"] by (simp only:)
  next
    case (Some e)
    have "requests (snd (execute be m ps s)) = requests s"
      and "promises (snd (execute be m ps s)) = promises s @ [Rejected e]"
      by (simp_all add: execute_thrown [of be s m ps, OF Some])
    then show ?thesis
      using entries_ok_append [OF executed.IH, of "Rejected e"] by (simp only:)
  qed
next
  case (signalled s sig)
  show ?case
  proof (cases sig)
    case Close
    then show ?thesis using signalled.IH by (simp add: backend_on_def emit_def)
  next
    case (Error err)
    then show ?thesis using signalled.IH by (simp add: backend_on_def emit_def)
  next
    case Ready
    then show ?thesis using signalled.IH by (simp add: backend_on_def emit_def)
  next
    case (Data r)
    show ?thesis
    proof (cases "resp_method r = Some ''xFeedback/Event''")
      case True
      then show ?thesis using signalled.IH
        by (simp add: Data backend_on_def handleResponse_feedback)
    next
      case False
      show ?thesis
      proof (cases "requests s (propertyKey (resp_id r))")
        case None
        then show ?thesis using signalled.IH False
          by (simp add: Data backend_on_def handleResponse_unknown)
      next
        case (Some p)
        have "p < length (promises s) \<and> promises s ! p = Pending"
          using signalled.IH Some unfolding entries_ok_def by blast
        then have st: "settle p x (promises s) = (promises s)[p := x]" for x
          by (simp add: settle_pending)
        have "requests (snd (backend_on sig s)) = (requests s)(propertyKey (resp_id r) := None)"
          and "promises (snd (backend_on sig s)) =
            (promises s)[p := (case resp_result r of Some v \<Rightarrow> Fulfilled v
                               | None \<Rightarrow> Rejected (member (resp_error r)))]"
          by (simp_all add: Data backend_on_def handleResponse_known [of r s, OF False Some] st)
        then show ?thesis
          using entries_ok_settle [OF signalled.IH Some] by (simp only:)
      qed
    qed
  qed
qed

lemma handleResponse_requestId: "requestId (snd (handleResponse r s)) = requestId s"
  by (cases "requests s (propertyKey (resp_id r))")
     (simp_all add: handleResponse_def Let_def split: option.splits)

text \<open>The counter of a session that can arise lies between 1 and \<open>2\<^sup>5\<^sup>3\<close>.\<close>

lemma reachable_requestId: "reachable s \<Longrightarrow> 1 \<le> requestId s \<and> requestId s \<le> 2 ^ 53"
proof (induction rule: reachable.induct)
  case fresh
  show ?case by (simp add: new_XAPI_def)
next
  case (executed s be m ps)
  then show ?case by (simp add: execute_requestId plusOne_def MAX_SAFE_INTEGER_def)
next
  case (signalled s sig)
  then show ?case
    by (cases sig) (simp_all add: backend_on_def emit_def handleResponse_requestId)
qed

text \<open>
  Every id in use is the numeral of a counter value already passed, as long as the counter
  has not reached \<open>2\<^sup>5\<^sup>3\<close>; so the id allocated next is in use by no pending request.
\<close>

lemma reachable_keys:
  "reachable s \<Longrightarrow> requests s k = Some p \<Longrightarrow>
   \<exists>n. k = toString n \<and> (n < requestId s \<or> requestId s = 2 ^ 53)"
proof (induction arbitrary: k p rule: reachable.induct)
  case fresh
  then show ?case by (simp add: new_XAPI_def)
next
  case (executed s be m ps)
  have range: "requestId s \<le> 2 ^ 53" using reachable_requestId [OF executed.hyps] by simp
  have up: "requestId s < plusOne (requestId s) \<or> plusOne (requestId s) = 2 ^ 53"
    using range by (auto simp: plusOne_def MAX_SAFE_INTEGER_def)
  have old: "\<exists>n. k = toString n \<and> (n < plusOne (requestId s) \<or> plusOne (requestId s) = 2 ^ 53)"
    if "requests s k = Some q" for k q
  proof -
    from executed.IH [OF that] obtain n
      where n: "k = toString n" "n < requestId s \<or> requestId s = 2 ^ 53" by blast
    have "n < plusOne (requestId s) \<or> plusOne (requestId s) = 2 ^ 53"
      using n(2) by (auto simp: plusOne_def MAX_SAFE_INTEGER_def)
    with n(1) show ?thesis by blast
  qed
  show ?case
  proof (cases "be (createRequest (toString (requestId s)) m ps)")
    case None
    have r: "requests (snd (execute be m ps s))
        = (requests s)(toString (requestId s) \<mapsto> length (promises s))"
      and c: "requestId (snd (execute be m ps s)) = plusOne (requestId s)"
      by (simp_all add: execute_accepted [of be s m ps, OF None])
    show ?thesis
    proof (cases "k = toString (requestId s)")
      case True
      with up show ?thesis unfolding c by blast
    next
      case False
      then have "requests s k = Some p" using executed.prems unfolding r by simp
      from old [OF this] show ?thesis unfolding c .
    qed
  next
    case (Some e)
    have r: "requests (snd (execute be m ps s)) = requests s"
      and c: "requestId (snd (execute be m ps s)) = plusOne (requestId s)"
      by (simp_all add: execute_thrown [of be s m ps, OF Some])
    have "requests s k = Some p" using executed.prems unfolding r .
    from old [OF this] show ?thesis unfolding c .
  qed
next
  case (signalled s sig)
  have sub: "requests s k = Some p"
  proof (cases sig)
    case (Data r)
    show ?thesis
    proof (cases "resp_method r = Some ''xFeedback/Event''")
      case True
      then show ?thesis using signalled.prems
        by (simp add: Data backend_on_def handleResponse_feedback)
    next
      case False
      show ?thesis
      proof (cases "requests s (propertyKey (resp_id r))")
        case None
        then show ?thesis using signalled.prems False
          by (simp add: Data backend_on_def handleResponse_unknown)
      next
        case (Some q)
        have "requests (snd (backend_on sig s)) = (requests s)(propertyKey (resp_id r) := None)"
          by (simp add: Data backend_on_def handleResponse_known [of r s, OF False Some])
        then show ?thesis using signalled.prems
          by (cases "k = propertyKey (resp_id r)") simp_all
      qed
    qed
  qed (use signalled.prems in \<open>simp_all add: backend_on_def emit_def\<close>)
  have c: "requestId (snd (backend_on sig s)) = requestId s"
    by (cases sig) (simp_all add: backend_on_def emit_def handleResponse_requestId)
  from signalled.IH [OF sub] show ?case unfolding c .
qed

lemma reachable_next_id_unused:
  assumes "reachable s" and "requestId s \<le> MAX_SAFE_INTEGER"
  shows "requests s (toString (requestId s)) = None"
proof (cases "requests s (toString (requestId s))")
  case None
  then show ?thesis .
next
  case (Some p)
  from reachable_keys [OF assms(1) Some] obtain n
    where n: "toString (requestId s) = toString n" "n < requestId s \<or> requestId s = 2 ^ 53"
    by blast
  from n(1) have "n = requestId s" using toString_inj by metis
  with n(2) assms(2) have False by (simp add: MAX_SAFE_INTEGER_def)
  then show ?thesis ..
qed

lemma reachable_executeAll: "reachable s \<Longrightarrow> reachable (snd (executeAll calls s))"
proof (induction calls arbitrary: s)
  case Nil
  then show ?case by simp
next
  case (Cons c calls)
  obtain be m ps where c: "c = (be, m, ps)" by (cases c)
  have "reachable (snd (execute be m ps s))" using Cons.prems by (rule reachable.executed)
  then have "reachable (snd (executeAll calls (snd (execute be m ps s))))" by (rule Cons.IH)
  then show ?case by (simp add: c split_beta Let_def)
qed

section \<open>Correlating a response with its request\<close>

text \<open>
  An entry stays where it is while no response carrying its id arrives and no later call
  stores its own entry under the same id; the latter cannot happen to an id allocated
  while the counter was at most \<open>2\<^sup>5\<^sup>3 - 1\<close>.
\<close>

lemma reachable_step: "reachable s \<Longrightarrow> reachable (step e s)"
  by (cases e) (simp_all add: reachable.executed reachable.signalled)

lemma reachable_run: "reachable s \<Longrightarrow> reachable (run evs s)"
  by (induction evs arbitrary: s) (simp_all add: reachable_step)

lemma backend_on_requestId: "requestId (snd (backend_on sig s)) = requestId s"
  by (cases sig) (simp_all add: backend_on_def emit_def handleResponse_requestId)

lemma plusOne_ge: "n \<le> plusOne n"
  by (simp add: plusOne_def)

lemma not_replaced_above:
  "c < requestId s \<Longrightarrow> \<not> replaced (toString c) evs s"
proof (induction evs arbitrary: s)
  case Nil
  show ?case by simp
next
  case (Cons ev evs)
  show ?case
  proof (cases ev)
    case (Call be m ps)
    have ne: "toString (requestId s) \<noteq> toString c"
      using Cons.prems toString_inj [of "requestId s" c] by auto
    have "c < requestId (snd (execute be m ps s))"
      using Cons.prems plusOne_ge [of "requestId s"] by (simp add: execute_requestId)
    from Cons.IH [OF this] ne show ?thesis by (simp add: Call)
  next
    case (Signal sig)
    have "c < requestId (snd (backend_on sig s))"
      using Cons.prems by (simp add: backend_on_requestId)
    from Cons.IH [OF this] show ?thesis by (simp add: Signal)
  qed
qed

lemma backend_on_keeps_entry:
  assumes "requests s k = Some p"
    and "case sig of Data r \<Rightarrow> resp_method r = Some ''xFeedback/Event'' \<or> propertyKey (resp_id r) \<noteq> k
         | _ \<Rightarrow> True"
  shows "requests (snd (backend_on sig s)) k = Some p"
proof (cases sig)
  case (Data r)
  show ?thesis
  proof (cases "resp_method r = Some ''xFeedback/Event''")
    case True
    then show ?thesis using assms(1) by (simp add: Data backend_on_def handleResponse_feedback)
  next
    case False
    then have ne: "propertyKey (resp_id r) \<noteq> k" using assms(2) by (simp add: Data)
    show ?thesis
    proof (cases "requests s (propertyKey (resp_id r))")
      case None
      then show ?thesis using assms(1) False
        by (simp add: Data backend_on_def handleResponse_unknown)
    next
      case (Some q)
      have "requests (snd (backend_on sig s)) = (requests s)(propertyKey (resp_id r) := None)"
        by (simp add: Data backend_on_def handleResponse_known [of r s, OF False Some])
      then show ?thesis using assms(1) ne by simp
    qed
  qed
qed (use assms(1) in \<open>simp_all add: backend_on_def emit_def\<close>)

lemma execute_keeps_entry:
  assumes "requests s k = Some p"
    and "\<not> (toString (requestId s) = k \<and> be (createRequest k m ps) = None)"
  shows "requests (snd (execute be m ps s)) k = Some p"
proof (cases "be (createRequest (toString (requestId s)) m ps)")
  case None
  then have ne: "toString (requestId s) \<noteq> k" using assms(2) by auto
  have "requests (snd (execute be m ps s))
      = (requests s)(toString (requestId s) \<mapsto> length (promises s))"
    by (simp add: execute_accepted [of be s m ps, OF None])
  then show ?thesis using assms(1) ne by simp
next
  case (Some e)
  have "requests (snd (execute be m ps s)) = requests s"
    by (simp add: execute_thrown [of be s m ps, OF Some])
  then show ?thesis using assms(1) by simp
qed

lemma run_keeps_entry:
  "requests s k = Some p \<Longrightarrow> unanswered k evs \<Longrightarrow> \<not> replaced k evs s \<Longrightarrow>
   requests (run evs s) k = Some p"
proof (induction evs arbitrary: s)
  case Nil
  then show ?case by simp
next
  case (Cons ev evs)
  show ?case
  proof (cases ev)
    case (Call be m ps)
    have a: "\<not> (toString (requestId s) = k \<and> be (createRequest k m ps) = None)"
      and b: "\<not> replaced k evs (snd (execute be m ps s))"
      using Cons.prems(3) by (simp_all add: Call)
    have u: "unanswered k evs" using Cons.prems(2) by (simp add: Call)
    have "requests (snd (execute be m ps s)) k = Some p"
      using Cons.prems(1) a by (rule execute_keeps_entry)
    from Cons.IH [OF this u b] show ?thesis by (simp add: Call)
  next
    case (Signal sig)
    have a: "case sig of Data r \<Rightarrow> resp_method r = Some ''xFeedback/Event'' \<or> propertyKey (resp_id r) \<noteq> k
         | _ \<Rightarrow> True"
      and u: "unanswered k evs"
      using Cons.prems(2) by (simp_all add: Signal)
    have b: "\<not> replaced k evs (snd (backend_on sig s))"
      using Cons.prems(3) by (simp add: Signal)
    have "requests (snd (backend_on sig s)) k = Some p"
      using Cons.prems(1) a by (rule backend_on_keeps_entry)
    from Cons.IH [OF this u b] show ?thesis by (simp add: Signal)
  qed
qed

lemma handleResponse_entry:
  assumes "reachable s"
    and "resp_method r \<noteq> Some ''xFeedback/Event''"
    and "requests s (propertyKey (resp_id r)) = Some p"
  shows "p < length (promises s) \<and> promises s ! p = Pending
       \<and> handleResponse r s =
           (None, s\<lparr>promises := (promises s)[p := (case resp_result r of Some v \<Rightarrow> Fulfilled v
                                                   | None \<Rightarrow> Rejected (member (resp_error r)))],
                     requests := (requests s)(propertyKey (resp_id r) := None)\<rparr>)"
proof -
  have pend: "p < length (promises s)" "promises s ! p = Pending"
    using reachable_entries [OF assms(1)] assms(3) unfolding entries_ok_def by blast+
  show ?thesis
    using assms(2,3) pend by (simp add: handleResponse_known settle_pending)
qed

text \<open>At the counter \<open>2\<^sup>5\<^sup>3\<close> a second request takes the entry of the first.\<close>

lemma toString_limit: "toString 9007199254740992 = ''9007199254740992''"
  by (simp add: toString.simps digit_def)

lemma saturated_requestId: "requestId saturated = 2 ^ 53"
proof -
  have le: "requestId new_XAPI \<le> 2 ^ 53" by (simp add: new_XAPI_def)
  show ?thesis
    unfolding saturated_def
    using executeAll_requestId [OF le, of "replicate 9007199254740991 (throwing JNull, ''xGet'', None)"]
    by (simp add: new_XAPI_def)
qed

lemma overwritten_at_limit:
  assumes c: "requestId s = 2 ^ 53"
    and r: "resp_id r = Some ''9007199254740992''" "resp_method r = None" "resp_result r = Some v"
  shows "requests (snd (execute accepting m1 ps1 s)) ''9007199254740992''
           = Some (fst (execute accepting m1 ps1 s))
       \<and> fst (handleResponse r (snd (execute accepting m2 ps2 (snd (execute accepting m1 ps1 s))))) = None
       \<and> promises (snd (handleResponse r (snd (execute accepting m2 ps2 (snd (execute accepting m1 ps1 s))))))
           ! fst (execute accepting m1 ps1 s) = Pending
       \<and> promises (snd (handleResponse r (snd (execute accepting m2 ps2 (snd (execute accepting m1 ps1 s))))))
           ! fst (execute accepting m2 ps2 (snd (execute accepting m1 ps1 s))) = Fulfilled v
       \<and> requests (snd (handleResponse r (snd (execute accepting m2 ps2 (snd (execute accepting m1 ps1 s))))))
           ''9007199254740992'' = None"
proof -
  let ?k = "''9007199254740992''"
  let ?L = "length (promises s)"
  have k: "toString (requestId s) = ?k" unfolding c using toString_limit by simp
  have stay: "plusOne (requestId s) = requestId s"
    unfolding c by (simp add: plusOne_def MAX_SAFE_INTEGER_def)
  have e1: "execute accepting m1 ps1 s =
      (?L, s\<lparr>requestId := requestId s, requests := (requests s)(?k \<mapsto> ?L),
            promises := promises s @ [Pending],
            handed := handed s @ [createRequest ?k m1 ps1]\<rparr>)"
    using execute_accepted [of accepting s m1 ps1] by (simp add: accepting_def k stay)
  let ?s1 = "s\<lparr>requestId := requestId s, requests := (requests s)(?k \<mapsto> ?L),
            promises := promises s @ [Pending],
            handed := handed s @ [createRequest ?k m1 ps1]\<rparr>"
  have e2: "execute accepting m2 ps2 ?s1 =
      (Suc ?L, s\<lparr>requestId := requestId s, requests := (requests s)(?k \<mapsto> Suc ?L),
            promises := promises s @ [Pending, Pending],
            handed := handed s @ [createRequest ?k m1 ps1, createRequest ?k m2 ps2]\<rparr>)"
    using execute_accepted [of accepting ?s1 m2 ps2] by (simp add: accepting_def k stay)
  let ?s2 = "s\<lparr>requestId := requestId s, requests := (requests s)(?k \<mapsto> Suc ?L),
            promises := promises s @ [Pending, Pending],
            handed := handed s @ [createRequest ?k m1 ps1, createRequest ?k m2 ps2]\<rparr>"
  have nf: "resp_method r \<noteq> Some ''xFeedback/Event''" using r(2) by simp
  have look: "requests ?s2 (propertyKey (resp_id r)) = Some (Suc ?L)"
    by (simp add: r(1) propertyKey_def)
  have h: "handleResponse r ?s2 =
      (None, ?s2\<lparr>promises := settle (Suc ?L) (Fulfilled v) (promises ?s2),
                  requests := (requests ?s2)(propertyKey (resp_id r) := None)\<rparr>)"
    using handleResponse_known [of r ?s2, OF nf look] by (simp add: r(3))
  have st: "settle (Suc ?L) (Fulfilled v) (promises ?s2) = promises s @ [Pending, Fulfilled v]"
    by (simp add: settle_def nth_append list_update_append)
  show ?thesis
    unfolding e1 fst_conv snd_conv e2 h st
    by (simp add: r(1) propertyKey_def nth_append)
qed

text \<open>
  C1, as stated, at two inputs. On a session whose counter has reached \<open>2\<^sup>5\<^sup>3\<close>, two
  calls of \<^verbatim>\<open>execute\<close> that the backend takes are both given the id
  \<^verbatim>\<open>9007199254740992\<close>; the response \<^verbatim>\<open>{ id: "9007199254740992", result: 1 }\<close> then
  fulfils the promise of the second call, the promise of the first stays pending and no
  entry is left for it. And on a fresh session after one call, the envelope
  \<^verbatim>\<open>{ id: "1", method: "xFeedback/Event", result: 1 }\<close>, which carries the id and a
  result, goes to the dispatcher: the promise stays pending and its entry stays.
\<close>

theorem another_promise_settled_at_limit:
  "requests (snd (execute accepting ''xGet'' None saturated)) ''9007199254740992''
     = Some (fst (execute accepting ''xGet'' None saturated))
   \<and> fst (handleResponse
       \<lparr>resp_id = Some ''9007199254740992'', resp_method = None, resp_params = None,
        resp_result = Some (JNum 1), resp_error = None\<rparr>
       (snd (execute accepting ''xSet'' None (snd (execute accepting ''xGet'' None saturated))))) = None
   \<and> promises (snd (handleResponse
       \<lparr>resp_id = Some ''9007199254740992'', resp_method = None, resp_params = None,
        resp_result = Some (JNum 1), resp_error = None\<rparr>
       (snd (execute accepting ''xSet'' None (snd (execute accepting ''xGet'' None saturated))))))
       ! fst (execute accepting ''xGet'' None saturated) = Pending
   \<and> promises (snd (handleResponse
       \<lparr>resp_id = Some ''9007199254740992'', resp_method = None, resp_params = None,
        resp_result = Some (JNum 1), resp_error = None\<rparr>
       (snd (execute accepting ''xSet'' None (snd (execute accepting ''xGet'' None saturated))))))
       ! fst (execute accepting ''xSet'' None (snd (execute accepting ''xGet'' None saturated)))
       = Fulfilled (JNum 1)
   \<and> requests (snd (handleResponse
       \<lparr>resp_id = Some ''9007199254740992'', resp_method = None, resp_params = None,
        resp_result = Some (JNum 1), resp_error = None\<rparr>
       (snd (execute accepting ''xSet'' None (snd (execute accepting ''xGet'' None saturated))))))
       ''9007199254740992'' = None
   \<and> handleResponse
       \<lparr>resp_id = Some ''1'', resp_method = Some ''xFeedback/Event'', resp_params = None,
        resp_result = Some (JNum 1), resp_error = None\<rparr>
       (snd (execute accepting ''xGet'' None new_XAPI))
     = (None,
        \<lparr>requestId = 2, requests = [''1'' \<mapsto> 0], promises = [Pending],
         handed = [createRequest ''1'' ''xGet'' None], dispatched = [JUndefined],
         emitted = []\<rparr>)"
proof -
  note a = overwritten_at_limit [OF saturated_requestId, of
      "\<lparr>resp_id = Some ''9007199254740992'', resp_method = None, resp_params = None,
        resp_result = Some (JNum 1), resp_error = None\<rparr>" "JNum 1" "''xGet''" None "''xSet''" None]
  have b: "handleResponse
       \<lparr>resp_id = Some ''1'', resp_method = Some ''xFeedback/Event'', resp_params = None,
        resp_result = Some (JNum 1), resp_error = None\<rparr>
       (snd (execute accepting ''xGet'' None new_XAPI))
     = (None,
        \<lparr>requestId = 2, requests = [''1'' \<mapsto> 0], promises = [Pending],
         handed = [createRequest ''1'' ''xGet'' None], dispatched = [JUndefined],
         emitted = []\<rparr>)"
    by (simp add: handleResponse_def member_def new_XAPI_def execute_def nextRequestId_def
        plusOne_def MAX_SAFE_INTEGER_def accepting_def toString.simps digit_def Let_def)
  from a b show ?thesis by simp
qed

text \<open>
  C1, amended. Take a call of \<^verbatim>\<open>execute\<close> that the backend took, on a session that can
  arise, and let any events follow among which no response carries the id allocated, and
  no later call stores its own entry under that id (which is so whenever the counter was
  at most \<open>2\<^sup>5\<^sup>3 - 1\<close> at the call). Then the promise returned by that call is still
  pending and stored under that id, and a response that is not a feedback event and
  carries that id settles exactly that promise and no other: with a \<^verbatim>\<open>result\<close> member
  it is fulfilled with that result; without one, and with an \<^verbatim>\<open>error\<close> member, it is
  rejected with that error. In both cases the entry is removed from \<^verbatim>\<open>requests\<close>.
\<close>

theorem response_settles_its_request:
  fixes s0 :: xapi and evs :: "event list"
  defines "k \<equiv> toString (requestId s0)"
  assumes "reachable s0"
    and "be (createRequest (toString (requestId s0)) m params) = None"
    and "unanswered (toString (requestId s0)) evs"
    and "requestId s0 \<le> MAX_SAFE_INTEGER
         \<or> \<not> replaced (toString (requestId s0)) evs (snd (execute be m params s0))"
    and "resp_method r \<noteq> Some ''xFeedback/Event''"
    and "propertyKey (resp_id r) = toString (requestId s0)"
  shows "requests (run evs (snd (execute be m params s0))) k = Some (fst (execute be m params s0))
       \<and> promises (run evs (snd (execute be m params s0))) ! fst (execute be m params s0) = Pending
       \<and> (resp_result r = Some v \<longrightarrow>
            handleResponse r (run evs (snd (execute be m params s0))) =
              (None, (run evs (snd (execute be m params s0)))
                 \<lparr>promises := (promises (run evs (snd (execute be m params s0))))
                                 [fst (execute be m params s0) := Fulfilled v],
                   requests := (requests (run evs (snd (execute be m params s0))))(k := None)\<rparr>))
       \<and> (resp_result r = None \<longrightarrow> resp_error r = Some e \<longrightarrow>
            handleResponse r (run evs (snd (execute be m params s0))) =
              (None, (run evs (snd (execute be m params s0)))
                 \<lparr>promises := (promises (run evs (snd (execute be m params s0))))
                                 [fst (execute be m params s0) := Rejected e],
                   requests := (requests (run evs (snd (execute be m params s0))))(k := None)\<rparr>))
       \<and> requests (snd (handleResponse r (run evs (snd (execute be m params s0))))) k = None
       \<and> (\<forall>q. q \<noteq> fst (execute be m params s0) \<longrightarrow>
             promises (snd (handleResponse r (run evs (snd (execute be m params s0))))) ! q
               = promises (run evs (snd (execute be m params s0))) ! q)"
proof -
  let ?p = "fst (execute be m params s0)"
  let ?s1 = "snd (execute be m params s0)"
  let ?s = "run evs ?s1"
  have stored: "requests ?s1 k = Some ?p"
    unfolding k_def by (simp add: execute_accepted [of be s0 m params, OF assms(3)])
  have nr: "\<not> replaced k evs ?s1"
  proof (cases "requestId s0 \<le> MAX_SAFE_INTEGER")
    case True
    then have "requestId s0 < requestId ?s1"
      by (simp add: execute_requestId plusOne_def)
    then show ?thesis unfolding k_def by (rule not_replaced_above)
  next
    case False
    with assms(5) show ?thesis unfolding k_def by blast
  qed
  have kept: "requests ?s k = Some ?p"
    using stored assms(4) nr unfolding k_def by (rule run_keeps_entry [unfolded k_def])
  have r: "reachable ?s"
    by (intro reachable_run reachable.executed assms(2))
  have key: "requests ?s (propertyKey (resp_id r)) = Some ?p"
    using kept assms(7) unfolding k_def by simp
  note h = handleResponse_entry [OF r assms(6) key]
  show ?thesis
    using kept h assms(7) unfolding k_def by (simp add: member_def)
qed

theorem response_settles_its_request_witness:
  "reachable new_XAPI
   \<and> accepting (createRequest (toString (requestId new_XAPI)) ''xGet'' None) = None
   \<and> unanswered (toString (requestId new_XAPI))
        [Call accepting ''xGet'' None,
         Signal (Data \<lparr>resp_id = Some ''2'', resp_method = None, resp_params = None,
                       resp_result = None, resp_error = Some (JStr ''no such path'')\<rparr>),
         Signal Ready]
   \<and> requestId new_XAPI \<le> MAX_SAFE_INTEGER
   \<and> fst (execute accepting ''xGet'' None new_XAPI) = 0
   \<and> handleResponse
       \<lparr>resp_id = Some ''1'', resp_method = None, resp_params = None,
        resp_result = Some (JNum 70), resp_error = None\<rparr>
       (run [Call accepting ''xGet'' None,
             Signal (Data \<lparr>resp_id = Some ''2'', resp_method = None, resp_params = None,
                           resp_result = None, resp_error = Some (JStr ''no such path'')\<rparr>),
             Signal Ready]
          (snd (execute accepting ''xGet'' None new_XAPI)))
     = (None,
        \<lparr>requestId = 3, requests = Map.empty,
         promises = [Fulfilled (JNum 70), Rejected (JStr ''no such path'')],
         handed = [createRequest ''1'' ''xGet'' None, createRequest ''2'' ''xGet'' None],
         dispatched = [], emitted = [(''ready'', [This])]\<rparr>)"
proof -
  have rn: "run [Call accepting ''xGet'' None,
             Signal (Data \<lparr>resp_id = Some ''2'', resp_method = None, resp_params = None,
                           resp_result = None, resp_error = Some (JStr ''no such path'')\<rparr>),
             Signal Ready]
          (snd (execute accepting ''xGet'' None new_XAPI))
      = \<lparr>requestId = 3, requests = [''1'' \<mapsto> 0],
         promises = [Pending, Rejected (JStr ''no such path'')],
         handed = [createRequest ''1'' ''xGet'' None, createRequest ''2'' ''xGet'' None],
         dispatched = [], emitted = [(''ready'', [This])]\<rparr>"
    by (simp add: new_XAPI_def execute_def nextRequestId_def plusOne_def backend_on_def emit_def
        handleResponse_def member_def propertyKey_def settle_def
        MAX_SAFE_INTEGER_def accepting_def toString.simps digit_def Let_def fun_upd_twist)
  have t1: "toString (requestId new_XAPI) = ''1''"
    by (simp add: new_XAPI_def toString.simps digit_def)
  have h1: "reachable new_XAPI" by (rule reachable.fresh)
  have h2: "accepting (createRequest (toString (requestId new_XAPI)) ''xGet'' None) = None"
    by (simp add: accepting_def)
  have h3: "unanswered (toString (requestId new_XAPI))
        [Call accepting ''xGet'' None,
         Signal (Data \<lparr>resp_id = Some ''2'', resp_method = None, resp_params = None,
                       resp_result = None, resp_error = Some (JStr ''no such path'')\<rparr>),
         Signal Ready]"
    unfolding t1 by (simp add: propertyKey_def)
  have h4: "requestId new_XAPI \<le> MAX_SAFE_INTEGER"
    by (simp add: new_XAPI_def MAX_SAFE_INTEGER_def)
  have h6: "propertyKey (resp_id \<lparr>resp_id = Some ''1'', resp_method = None, resp_params = None,
        resp_result = Some (JNum 70), resp_error = None\<rparr>) = toString (requestId new_XAPI)"
    unfolding t1 by (simp add: propertyKey_def)
  have p0: "fst (execute accepting ''xGet'' None new_XAPI) = 0"
    by (simp add: execute_fst new_XAPI_def)
  have h5: "resp_method \<lparr>resp_id = Some ''1'', resp_method = None, resp_params = None,
        resp_result = Some (JNum 70), resp_error = None\<rparr> \<noteq> Some ''xFeedback/Event''"
    by simp
  have h4': "requestId new_XAPI \<le> MAX_SAFE_INTEGER
      \<or> \<not> replaced (toString (requestId new_XAPI))
        [Call accepting ''xGet'' None,
         Signal (Data \<lparr>resp_id = Some ''2'', resp_method = None, resp_params = None,
                       resp_result = None, resp_error = Some (JStr ''no such path'')\<rparr>),
         Signal Ready]
        (snd (execute accepting ''xGet'' None new_XAPI))"
    using h4 by (rule disjI1)
  note w = response_settles_its_request
    [where ?s0.0 = new_XAPI and be = accepting and m = "''xGet''" and params = None
      and v = "JNum 70" and e = JNull, OF h1 h2 h3 h4' h5 h6]
  show ?thesis
    using h1 h2 h3 h4 p0 w unfolding rn t1 p0
    by simp
qed

section \<open>A response with an unknown id\<close>

text \<open>
  C2, as stated, at a fresh session and the response \<^verbatim>\<open>{ id: "7", result: 1 }\<close>:
  \<^verbatim>\<open>handleResponse\<close> throws.
\<close>

theorem unknown_id_response_throws_example:
  "handleResponse
     \<lparr>resp_id = Some ''7'', resp_method = None, resp_params = None,
      resp_result = Some (JNum 1), resp_error = None\<rparr> new_XAPI
   = (Some TypeError, new_XAPI)"
  by (simp add: handleResponse_def new_XAPI_def propertyKey_def)

text \<open>
  C2, amended. For a response that is not a feedback event and whose id has no entry in
  \<^verbatim>\<open>requests\<close>, \<^verbatim>\<open>handleResponse\<close> throws a \<^verbatim>\<open>TypeError\<close> and leaves the
  session as it was: no promise is settled and \<^verbatim>\<open>requests\<close> is unchanged.
\<close>

theorem unknown_id_response_throws:
  assumes "resp_method r \<noteq> Some ''xFeedback/Event''"
    and "requests s (propertyKey (resp_id r)) = None"
  shows "handleResponse r s = (Some TypeError, s)"
  using assms by (rule handleResponse_unknown)

theorem unknown_id_response_throws_witness:
  "handleResponse
     \<lparr>resp_id = Some ''2'', resp_method = None, resp_params = None,
      resp_result = None, resp_error = Some (JStr ''late'')\<rparr>
     (snd (execute accepting ''xGet'' None new_XAPI))
   = (Some TypeError, snd (execute accepting ''xGet'' None new_XAPI))
   \<and> requests (snd (execute accepting ''xGet'' None new_XAPI)) = [''1'' \<mapsto> 0]
   \<and> promises (snd (execute accepting ''xGet'' None new_XAPI)) = [Pending]"
  using unknown_id_response_throws
    [of "\<lparr>resp_id = Some ''2'', resp_method = None, resp_params = None,
      resp_result = None, resp_error = Some (JStr ''late'')\<rparr>"
      "snd (execute accepting ''xGet'' None new_XAPI)"]
  by (simp add: new_XAPI_def execute_def nextRequestId_def plusOne_def
      MAX_SAFE_INTEGER_def accepting_def toString.simps digit_def
      propertyKey_def Let_def)

section \<open>Request ids\<close>

text \<open>
  Once the counter has reached \<open>2\<^sup>5\<^sup>3\<close> it stays there, so a run of more than \<open>2\<^sup>5\<^sup>3\<close>
  calls on a fresh session issues the id \<^verbatim>\<open>9007199254740992\<close> more than once.
\<close>

lemma executeAll_saturated:
  assumes "2 ^ 53 < length calls"
  shows "\<not> distinct (map req_id (handed (snd (executeAll calls new_XAPI))))"
proof -
  let ?ids = "map req_id (handed (snd (executeAll calls new_XAPI)))"
  let ?f = "\<lambda>k. toString (min (requestId new_XAPI + k) (2 ^ 53))"
  have ids: "?ids = map ?f [0..<length calls]"
    using executeAll_ids [of new_XAPI calls] by (simp add: new_XAPI_def)
  have len: "length ?ids = length calls" unfolding ids by simp
  have i: "2 ^ 53 - 1 < length calls" and j: "2 ^ 53 < length calls"
    using assms by simp_all
  have "?ids ! (2 ^ 53 - 1) = ?f (2 ^ 53 - 1)"
    unfolding ids using i by (simp only: nth_map length_upt nth_upt diff_zero add_0)
  moreover have "?ids ! (2 ^ 53) = ?f (2 ^ 53)"
    unfolding ids using j by (simp only: nth_map length_upt nth_upt diff_zero add_0)
  moreover have "?f (2 ^ 53 - 1) = ?f (2 ^ 53)"
    by (simp add: new_XAPI_def)
  ultimately have eq: "?ids ! (2 ^ 53 - 1) = ?ids ! (2 ^ 53)" by simp
  show ?thesis
  proof
    assume "distinct ?ids"
    moreover have "(2::nat) ^ 53 - 1 \<noteq> 2 ^ 53" by simp
    ultimately have "?ids ! (2 ^ 53 - 1) \<noteq> ?ids ! (2 ^ 53)"
      using i j unfolding distinct_conv_nth len by blast
    with eq show False by blast
  qed
qed

text \<open>
  C3, as stated, at a run of \<open>2\<^sup>5\<^sup>3 + 1\<close> calls on a fresh session: the ids handed to
  the backend are not pairwise distinct.
\<close>

theorem request_ids_repeat:
  "\<not> distinct (map req_id (handed (snd
      (executeAll (replicate 9007199254740993 (throwing JNull, ''xGet'', None)) new_XAPI))))"
  by (rule executeAll_saturated) simp

text \<open>
  C3, amended. On a session whose counter is \<open>c\<close>, a run of \<open>N\<close> calls of
  \<^verbatim>\<open>execute\<close> with \<open>c + N \<le> 2\<^sup>5\<^sup>3 + 1\<close> and nothing arriving in between (on a fresh
  session: \<open>N \<le> 2\<^sup>5\<^sup>3\<close>) issues the ids \<open>c, c + 1, \<dots>, c + N - 1\<close> in decimal: they are
  pairwise distinct and strictly increasing in issuance order. Every call the backend took
  has its own promise, still pending, stored under its own id, so no two pending requests
  share an id; the promises returned are pairwise distinct. The first id of a fresh
  session is \<^verbatim>\<open>1\<close>. And in every session that can arise, whatever has arrived, as long
  as the counter is at most \<open>2\<^sup>5\<^sup>3 - 1\<close> the id allocated next is that of no pending
  request.
\<close>

theorem request_ids_distinct_increasing:
  fixes s :: xapi and calls :: "call list"
  defines "s' \<equiv> snd (executeAll calls s)"
    and "ps \<equiv> fst (executeAll calls s)"
    and "ids \<equiv> drop (length (handed s)) (map req_id (handed (snd (executeAll calls s))))"
  assumes bound: "requestId s + length calls \<le> 2 ^ 53 + 1"
  shows "ids = map toString [requestId s..<requestId s + length calls]
    \<and> distinct ids
    \<and> sorted_wrt (<) (map idValue ids)
    \<and> (\<forall>i<length calls. accepts (calls ! i) (ids ! i) \<longrightarrow>
          requests s' (ids ! i) = Some (ps ! i) \<and> promises s' ! (ps ! i) = Pending)
    \<and> distinct ps
    \<and> fst (nextRequestId new_XAPI) = ''1''
    \<and> (reachable s0 \<longrightarrow> requestId s0 \<le> MAX_SAFE_INTEGER \<longrightarrow>
          requests s0 (toString (requestId s0)) = None)"
proof -
  have raw: "map req_id (handed (snd (executeAll calls s))) =
      map req_id (handed s) @
      map (\<lambda>k. toString (min (requestId s + k) (2 ^ 53))) [0..<length calls]"
  proof (cases calls)
    case Nil
    then show ?thesis by simp
  next
    case (Cons c cs)
    then have "requestId s \<le> 2 ^ 53" using bound by simp
    then show ?thesis by (rule executeAll_ids)
  qed
  have "map (\<lambda>k. toString (min (requestId s + k) (2 ^ 53))) [0..<length calls]
      = map (\<lambda>k. toString (requestId s + k)) [0..<length calls]"
    using bound by (intro map_cong) auto
  also have "\<dots> = map toString (map (\<lambda>k. requestId s + k) [0..<length calls])"
    by simp
  also have "map (\<lambda>k. requestId s + k) [0..<length calls] = [requestId s..<requestId s + length calls]"
    by (simp add: map_add_upt add.commute)
  finally have ids: "ids = map toString [requestId s..<requestId s + length calls]"
    unfolding ids_def using raw by simp
  have inj: "inj_on toString A" for A
    by (rule inj_onI) (rule toString_inj)
  have d: "distinct ids" unfolding ids by (simp add: distinct_map inj)
  have "map idValue ids = [requestId s..<requestId s + length calls]"
    unfolding ids by (simp add: idValue_toString map_idI)
  then have so: "sorted_wrt (<) (map idValue ids)" by simp
  have ps: "ps = [length (promises s)..<length (promises s) + length calls]"
    unfolding ps_def using executeAll_promises [of calls s] by simp
  have pend: "\<forall>i<length calls. accepts (calls ! i) (ids ! i) \<longrightarrow>
          requests s' (ids ! i) = Some (ps ! i) \<and> promises s' ! (ps ! i) = Pending"
  proof (intro allI impI)
    fix i assume i: "i < length calls" and a: "accepts (calls ! i) (ids ! i)"
    have idi: "ids ! i = toString (requestId s + i)" unfolding ids using i by simp
    have psi: "ps ! i = length (promises s) + i" unfolding ps using i by simp
    from executeAll_pending [OF bound i] a show
      "requests s' (ids ! i) = Some (ps ! i) \<and> promises s' ! (ps ! i) = Pending"
      unfolding idi psi s'_def by simp
  qed
  have first: "fst (nextRequestId new_XAPI) = ''1''"
    by (simp add: nextRequestId_def new_XAPI_def toString.simps digit_def)
  have unused: "reachable s0 \<longrightarrow> requestId s0 \<le> MAX_SAFE_INTEGER \<longrightarrow>
          requests s0 (toString (requestId s0)) = None"
    using reachable_next_id_unused by blast
  from ids d so pend ps first unused show ?thesis by simp
qed

theorem request_ids_distinct_increasing_witness:
  "requestId new_XAPI + length [(accepting, ''xGet'', None), (throwing JNull, ''xSet'', None), (accepting, ''xGet'', None)] \<le> 2 ^ 53 + 1
   \<and> map req_id (handed (snd (executeAll [(accepting, ''xGet'', None), (throwing JNull, ''xSet'', None), (accepting, ''xGet'', None)] new_XAPI))) = [''1'', ''2'', ''3'']
   \<and> distinct [''1'', ''2'', ''3'']
   \<and> map idValue [''1'', ''2'', ''3''] = [1, 2, 3]
   \<and> fst (executeAll [(accepting, ''xGet'', None), (throwing JNull, ''xSet'', None), (accepting, ''xGet'', None)] new_XAPI) = [0, 1, 2]
   \<and> requests (snd (executeAll [(accepting, ''xGet'', None), (throwing JNull, ''xSet'', None), (accepting, ''xGet'', None)] new_XAPI)) ''1'' = Some 0
   \<and> requests (snd (executeAll [(accepting, ''xGet'', None), (throwing JNull, ''xSet'', None), (accepting, ''xGet'', None)] new_XAPI)) ''2'' = None
   \<and> requests (snd (executeAll [(accepting, ''xGet'', None), (throwing JNull, ''xSet'', None), (accepting, ''xGet'', None)] new_XAPI)) ''3'' = Some 2
   \<and> promises (snd (executeAll [(accepting, ''xGet'', None), (throwing JNull, ''xSet'', None), (accepting, ''xGet'', None)] new_XAPI)) = [Pending, Rejected JNull, Pending]
   \<and> reachable new_XAPI \<and> requestId new_XAPI \<le> MAX_SAFE_INTEGER
   \<and> requests new_XAPI (toString (requestId new_XAPI)) = None"
  using request_ids_distinct_increasing
    [of new_XAPI "[(accepting, ''xGet'', None), (throwing JNull, ''xSet'', None), (accepting, ''xGet'', None)]"
      new_XAPI]
    reachable.fresh
  by (simp add: new_XAPI_def execute_def nextRequestId_def createRequest_def plusOne_def
      MAX_SAFE_INTEGER_def accepting_def throwing_def settle_def toString.simps digit_def
      idValue_def digitValue_def Let_def)

section \<open>Commands\<close>



section \<open>Routing of inbound payloads\<close>

text \<open>
  C5. Every inbound payload takes exactly one of two branches. One whose method is
  \<^verbatim>\<open>xFeedback/Event\<close> is passed to the feedback dispatcher with its params, and nothing
  else of the session changes. Any other is treated as a response: the dispatcher is not
  called, and the payload is looked up in \<^verbatim>\<open>requests\<close> by its id, the promise found is
  settled and the entry removed (or the lookup throws).
\<close>

theorem response_routing:
  "(resp_method r = Some ''xFeedback/Event'' \<longrightarrow>
      handleResponse r s =
        (None, s\<lparr>dispatched := dispatched s @ [member (resp_params r)]\<rparr>))
   \<and> (resp_method r \<noteq> Some ''xFeedback/Event'' \<longrightarrow>
      dispatched (snd (handleResponse r s)) = dispatched s
      \<and> handleResponse r s =
        (case requests s (propertyKey (resp_id r)) of
           None \<Rightarrow> (Some TypeError, s)
         | Some p \<Rightarrow>
             (None,
              s\<lparr>promises :=
                   settle p
                     (case resp_result r of
                        Some v \<Rightarrow> Fulfilled v
                      | None \<Rightarrow> Rejected (member (resp_error r)))
                     (promises s),
                 requests := (requests s)(propertyKey (resp_id r) := None)\<rparr>)))"
  by (cases "requests s (propertyKey (resp_id r))")
     (simp_all add: handleResponse_feedback handleResponse_unknown handleResponse_known)

theorem response_routing_witness:
  "handleResponse
     \<lparr>resp_id = None, resp_method = Some ''xFeedback/Event'',
      resp_params = Some (JObj [(''Status'', JObj [(''Audio'', JObj [(''Volume'', JNum 50)])])]),
      resp_result = None, resp_error = None\<rparr>
     (snd (execute accepting ''xGet'' None new_XAPI))
   = (None,
      \<lparr>requestId = 2, requests = [''1'' \<mapsto> 0], promises = [Pending],
       handed = [createRequest ''1'' ''xGet'' None],
       dispatched = [JObj [(''Status'', JObj [(''Audio'', JObj [(''Volume'', JNum 50)])])]],
       emitted = []\<rparr>)
   \<and> handleResponse
     \<lparr>resp_id = Some ''1'', resp_method = Some ''xGet'', resp_params = None,
      resp_result = Some (JNum 50), resp_error = None\<rparr>
     (snd (execute accepting ''xGet'' None new_XAPI))
   = (None,
      \<lparr>requestId = 2, requests = Map.empty, promises = [Fulfilled (JNum 50)],
       handed = [createRequest ''1'' ''xGet'' None],
       dispatched = [], emitted = []\<rparr>)"
  using response_routing
    [of "\<lparr>resp_id = None, resp_method = Some ''xFeedback/Event'',
      resp_params = Some (JObj [(''Status'', JObj [(''Audio'', JObj [(''Volume'', JNum 50)])])]),
      resp_result = None, resp_error = None\<rparr>"
      "snd (execute accepting ''xGet'' None new_XAPI)"]
    response_routing
    [of "\<lparr>resp_id = Some ''1'', resp_method = Some ''xGet'', resp_params = None,
      resp_result = Some (JNum 50), resp_error = None\<rparr>"
      "snd (execute accepting ''xGet'' None new_XAPI)"]
  by (simp add: new_XAPI_def execute_def nextRequestId_def plusOne_def
      MAX_SAFE_INTEGER_def accepting_def settle_def toString.simps digit_def
      propertyKey_def member_def Let_def)

section \<open>Path normalization of a component\<close>

text \<open>
  C6. For a component with prefix \<open>prefix\<close> and any path input \<open>p\<close>, the component's
  normalization is the normalization of \<open>p\<close> unchanged when the prefix is empty, and the
  prefix followed by the normalization of \<open>p\<close> when it is not.
\<close>

theorem Component_normalizePath_prefix:
  "Component_normalizePath norm prefix p =
     (if prefix = [] then norm p else Name prefix # norm p)"
  by (simp add: Component_normalizePath_def)

theorem Component_normalizePath_prefix_witness:
  "Component_normalizePath normalizePath ''Configuration'' (PathString ''Audio Volume'')
     = [Name ''Configuration'', Name ''Audio'', Name ''Volume'']
   \<and> Component_normalizePath normalizePath [] (PathString ''Audio/Volume'')
     = [Name ''Audio'', Name ''Volume'']"
  using Component_normalizePath_prefix [of normalizePath "''Configuration''" "PathString ''Audio Volume''"]
    Component_normalizePath_prefix [of normalizePath "[]" "PathString ''Audio/Volume''"]
  by (simp add: normalizePath_def isSpace_def)

section \<open>Get and set\<close>

text \<open>
  C7. \<^verbatim>\<open>get(p)\<close> is \<^verbatim>\<open>execute\<close> with the method \<^verbatim>\<open>xGet\<close> and the params
  \<^verbatim>\<open>{ Path: normalize(p) }\<close>, and \<^verbatim>\<open>set(p, v)\<close> is \<^verbatim>\<open>execute\<close> with the method
  \<^verbatim>\<open>xSet\<close> and the params \<^verbatim>\<open>{ Path: normalize(p), Value: v }\<close>, where the
  normalization is that of the owning section: for \<^verbatim>\<open>Config\<close> the path starts with
  \<^verbatim>\<open>Configuration\<close>, for \<^verbatim>\<open>Status\<close> with \<^verbatim>\<open>Status\<close>.
\<close>

theorem get_set_compose_execute:
  "GettableImpl_get normalizer be p s =
     execute be ''xGet'' (Some [(''Path'', pathValue (normalizer p))]) s
   \<and> SettableImpl_set normalizer be p v s =
     execute be ''xSet'' (Some [(''Path'', pathValue (normalizer p)), (''Value'', v)]) s
   \<and> Config_get norm be p s =
     execute be ''xGet'' (Some [(''Path'', pathValue (Name ''Configuration'' # norm p))]) s
   \<and> Status_get norm be p s =
     execute be ''xGet'' (Some [(''Path'', pathValue (Name ''Status'' # norm p))]) s
   \<and> Config_set norm be p v s =
     execute be ''xSet''
       (Some [(''Path'', pathValue (Name ''Configuration'' # norm p)), (''Value'', v)]) s
   \<and> handed (snd (Config_get norm be p s)) =
       handed s @
       [\<lparr>req_id = toString (requestId s), req_method = ''xGet'',
         req_params = Some [(''Path'', pathValue (Name ''Configuration'' # norm p))]\<rparr>]
   \<and> handed (snd (Config_set norm be p v s)) =
       handed s @
       [\<lparr>req_id = toString (requestId s), req_method = ''xSet'',
         req_params =
           Some [(''Path'', pathValue (Name ''Configuration'' # norm p)), (''Value'', v)]\<rparr>]"
  by (simp add: GettableImpl_get_def SettableImpl_set_def Config_get_def Status_get_def
      Config_set_def Component_normalizePath_def execute_handed createRequest_def)

theorem get_set_compose_execute_witness:
  "handed (snd (Config_set normalizePath accepting (PathString ''SystemUnit Name'') (JStr ''My System'')
      (snd (Status_get normalizePath accepting (PathString ''Audio/Volume'') new_XAPI))))
   = [\<lparr>req_id = ''1'', req_method = ''xGet'',
       req_params = Some [(''Path'', JArr [JStr ''Status'', JStr ''Audio'', JStr ''Volume''])]\<rparr>,
      \<lparr>req_id = ''2'', req_method = ''xSet'',
       req_params = Some [(''Path'', JArr [JStr ''Configuration'', JStr ''SystemUnit'', JStr ''Name'']),
                          (''Value'', JStr ''My System'')]\<rparr>]"
  using get_set_compose_execute
    [of normalizePath accepting "PathString ''Audio/Volume''" new_XAPI "JStr ''My System''" normalizePath]
    get_set_compose_execute
    [of normalizePath accepting "PathString ''SystemUnit Name''"
      "snd (Status_get normalizePath accepting (PathString ''Audio/Volume'') new_XAPI)"
      "JStr ''My System''" normalizePath]
  by (simp add: new_XAPI_def execute_def nextRequestId_def createRequest_def plusOne_def
      MAX_SAFE_INTEGER_def accepting_def toString.simps digit_def pathValue_def
      normalizePath_def isSpace_def Let_def)

section \<open>Lifecycle signals of the transport\<close>

text \<open>
  C8. Each \<^verbatim>\<open>close\<close>, \<^verbatim>\<open>error\<close> or \<^verbatim>\<open>ready\<close> of the transport causes exactly one
  emission of the facade, of the event of the same name; the payload of \<^verbatim>\<open>error\<close> is
  passed on as it is. (\<^verbatim>\<open>ready\<close> is emitted with the session itself as its argument.)
  Inbound data cause no emission.
\<close>

theorem lifecycle_signals_pass_through:
  "backend_on Close s = (None, s\<lparr>emitted := emitted s @ [(''close'', [])]\<rparr>)
   \<and> backend_on (Error err) s = (None, s\<lparr>emitted := emitted s @ [(''error'', [Value err])]\<rparr>)
   \<and> backend_on Ready s = (None, s\<lparr>emitted := emitted s @ [(''ready'', [This])]\<rparr>)
   \<and> emitted (snd (backend_on (Data r) s)) = emitted s"
  by (cases "requests s (propertyKey (resp_id r))")
     (simp_all add: backend_on_def emit_def handleResponse_def Let_def split: option.splits)

theorem lifecycle_signals_pass_through_witness:
  "emitted (snd (backend_on Close (snd (backend_on (Error (JStr ''reset'')) (snd (backend_on Ready new_XAPI))))))
   = [(''ready'', [This]), (''error'', [Value (JStr ''reset'')]), (''close'', [])]"
  using lifecycle_signals_pass_through [of new_XAPI "JStr ''reset''"]
    lifecycle_signals_pass_through [of "snd (backend_on Ready new_XAPI)" "JStr ''reset''"]
    lifecycle_signals_pass_through [of "snd (backend_on (Error (JStr ''reset'')) (snd (backend_on Ready new_XAPI)))" "JStr ''reset''"]
  by (simp add: new_XAPI_def)

section \<open>A response with neither result nor error\<close>

text \<open>
  C9. In every session that can arise, a response that is not a feedback event, whose id
  is that of a pending request and which has no \<^verbatim>\<open>result\<close> member takes the error branch:
  the promise is rejected with what \<^verbatim>\<open>response.error\<close> reads as, and the entry is removed.
  When the \<^verbatim>\<open>error\<close> member is absent too, the promise is rejected with \<^verbatim>\<open>undefined\<close>.
\<close>

theorem response_without_result_rejects:
  assumes "reachable s"
    and "resp_method r \<noteq> Some ''xFeedback/Event''"
    and "requests s (propertyKey (resp_id r)) = Some p"
    and "resp_result r = None"
  shows "handleResponse r s =
           (None, s\<lparr>promises := (promises s)[p := Rejected (member (resp_error r))],
                     requests := (requests s)(propertyKey (resp_id r) := None)\<rparr>)
       \<and> (resp_error r = None \<longrightarrow>
            promises (snd (handleResponse r s)) ! p = Rejected JUndefined)
       \<and> requests (snd (handleResponse r s)) (propertyKey (resp_id r)) = None"
proof -
  have pend: "p < length (promises s)" "promises s ! p = Pending"
    using reachable_entries [OF assms(1)] assms(3) unfolding entries_ok_def by blast+
  show ?thesis
    using assms(2,3,4) pend
    by (simp add: handleResponse_known settle_pending member_def)
qed

theorem response_without_result_rejects_witness:
  "reachable (snd (execute accepting ''xGet'' None new_XAPI))
   \<and> handleResponse
     \<lparr>resp_id = Some ''1'', resp_method = None, resp_params = None,
      resp_result = None, resp_error = None\<rparr>
     (snd (execute accepting ''xGet'' None new_XAPI))
   = (None,
      \<lparr>requestId = 2, requests = Map.empty, promises = [Rejected JUndefined],
       handed = [createRequest ''1'' ''xGet'' None],
       dispatched = [], emitted = []\<rparr>)"
proof -
  have r: "reachable (snd (execute accepting ''xGet'' None new_XAPI))"
    by (rule reachable.executed) (rule reachable.fresh)
  have st: "snd (execute accepting ''xGet'' None new_XAPI)
      = \<lparr>requestId = 2, requests = [''1'' \<mapsto> 0], promises = [Pending],
         handed = [createRequest ''1'' ''xGet'' None], dispatched = [], emitted = []\<rparr>"
    by (simp add: new_XAPI_def execute_def nextRequestId_def plusOne_def
        MAX_SAFE_INTEGER_def accepting_def toString.simps digit_def Let_def)
  have k: "requests (snd (execute accepting ''xGet'' None new_XAPI))
      (propertyKey (resp_id \<lparr>resp_id = Some ''1'', resp_method = None, resp_params = None,
        resp_result = None, resp_error = None\<rparr>)) = Some 0"
    unfolding st by (simp add: propertyKey_def)
  show ?thesis
    using r response_without_result_rejects [OF r _ k]
    unfolding st
    by (simp add: propertyKey_def member_def)
qed

section \<open>A transport that throws\<close>

text \<open>
  C10, as stated, at a session whose counter has reached \<open>2\<^sup>5\<^sup>3\<close> (a fresh session after
  \<open>2\<^sup>5\<^sup>3 - 1\<close> calls): a further \<^verbatim>\<open>execute\<close> whose transport throws leaves the counter
  as it was.
\<close>

theorem counter_stays_at_limit:
  "requestId (snd (execute (throwing JNull) ''xGet'' None
      (snd (executeAll (replicate 9007199254740991 (throwing JNull, ''xGet'', None)) new_XAPI))))
   = requestId (snd (executeAll (replicate 9007199254740991 (throwing JNull, ''xGet'', None)) new_XAPI))"
proof -
  have le: "requestId new_XAPI \<le> 2 ^ 53" by (simp add: new_XAPI_def)
  have at: "requestId (snd (executeAll (replicate 9007199254740991 (throwing JNull, ''xGet'', None)) new_XAPI)) = 2 ^ 53"
    using executeAll_requestId [OF le, of "replicate 9007199254740991 (throwing JNull, ''xGet'', None)"]
    by (simp add: new_XAPI_def)
  show ?thesis
    unfolding execute_requestId at by (simp add: plusOne_def MAX_SAFE_INTEGER_def)
qed

text \<open>
  C10, amended. Every \<^verbatim>\<open>execute\<close> hands its envelope to the transport, and an entry is
  stored only when the transport took it. If the transport throws, the promise returned is
  rejected with the value thrown and \<^verbatim>\<open>requests\<close> is left as it was. The counter has
  been incremented all the same whenever it was at most \<open>2\<^sup>5\<^sup>3 - 1\<close>; at \<open>2\<^sup>5\<^sup>3\<close> it
  keeps its value.
\<close>

theorem transport_throw_rejects_promise:
  "(be (createRequest (toString (requestId s)) m params) = Some e \<longrightarrow>
      execute be m params s =
        (length (promises s),
         s\<lparr>requestId := plusOne (requestId s),
           promises := promises s @ [Rejected e],
           handed := handed s @ [createRequest (toString (requestId s)) m params]\<rparr>)
    \<and> promises (snd (execute be m params s)) ! fst (execute be m params s) = Rejected e
    \<and> requests (snd (execute be m params s)) = requests s)
   \<and> (be (createRequest (toString (requestId s)) m params) = None \<longrightarrow>
      execute be m params s =
        (length (promises s),
         s\<lparr>requestId := plusOne (requestId s),
           requests := (requests s)(toString (requestId s) \<mapsto> length (promises s)),
           promises := promises s @ [Pending],
           handed := handed s @ [createRequest (toString (requestId s)) m params]\<rparr>))
   \<and> handed (snd (execute be m params s)) =
        handed s @ [createRequest (toString (requestId s)) m params]
   \<and> (requestId s \<le> MAX_SAFE_INTEGER \<longrightarrow>
        requestId (snd (execute be m params s)) = requestId s + 1)
   \<and> (requestId s = 2 ^ 53 \<longrightarrow>
        requestId (snd (execute be m params s)) = requestId s)"
  by (simp add: execute_accepted execute_thrown execute_handed execute_requestId plusOne_def
      MAX_SAFE_INTEGER_def)

theorem transport_throw_rejects_promise_witness:
  "requestId (snd (execute accepting ''xGet'' None new_XAPI)) \<le> MAX_SAFE_INTEGER
   \<and> execute (throwing (JStr ''socket closed'')) ''xSet'' None
       (snd (execute accepting ''xGet'' None new_XAPI))
     = (1, \<lparr>requestId = 3, requests = [''1'' \<mapsto> 0],
            promises = [Pending, Rejected (JStr ''socket closed'')],
            handed = [createRequest ''1'' ''xGet'' None, createRequest ''2'' ''xSet'' None],
            dispatched = [], emitted = []\<rparr>)"
  using transport_throw_rejects_promise
    [of "throwing (JStr ''socket closed'')" "snd (execute accepting ''xGet'' None new_XAPI)"
      "''xSet''" None "JStr ''socket closed''"]
  by (simp add: new_XAPI_def execute_def nextRequestId_def plusOne_def
      MAX_SAFE_INTEGER_def accepting_def throwing_def settle_def toString.simps digit_def Let_def)

end
